theory Spec2Isabelle
  imports Main
begin

section \<open>Exceptions\<close>

text \<open>
  The classes of Python exception that \<^verbatim>\<open>app/scraper.py\<close> and \<^verbatim>\<open>app/main.py\<close> raise or
  catch by name, with \<open>WebDriverException\<close> for any other fault of the driver.  All of them
  derive from \<open>Exception\<close>, so an \<^verbatim>\<open>except Exception\<close> clause catches every value of
  this type.  An exception value is its class and its message (\<^verbatim>\<open>str(e)\<close>).  Signals
  that do not derive from \<open>Exception\<close> (\<open>KeyboardInterrupt\<close>, \<open>SystemExit\<close>) are not modelled.
\<close>

datatype exn_class =
    Exception
  | FileNotFoundError
  | ValueError
  | KeyError
  | TimeoutException
  | NoSuchElementException
  | StaleElementReferenceException
  | WebDriverException

datatype exn = Raise exn_class string

fun class_of :: "exn \<Rightarrow> exn_class" where
  "class_of (Raise c m) = c"

fun str :: "exn \<Rightarrow> string" where
  "str (Raise c m) = m"

text \<open>Statement sequencing: an exception raised by the first statement skips the rest.\<close>

definition and_then :: "exn + 'a \<Rightarrow> ('a \<Rightarrow> exn + 'b) \<Rightarrow> exn + 'b" where
  "and_then r f = (case r of Inl e \<Rightarrow> Inl e | Inr x \<Rightarrow> f x)"

section \<open>The scroll loop of \<^verbatim>\<open>GoogleMapsScraper._scroll_reviews\<close>\<close>

text \<open>
  The local variables of the loop (scraper.py, lines 157-159).
\<close>

record scroll_vars =
  seen_ids :: "string set"
  stale_count :: nat
  scroll_count :: nat

definition max_stale :: nat where
  "max_stale = 6"

definition scroll_init :: scroll_vars where
  "scroll_init = \<lparr>seen_ids = {}, stale_count = 0, scroll_count = 0\<rparr>"

text \<open>
  Lines 171-175: the \<^verbatim>\<open>data-review-id\<close> attribute of each element found, as
  \<^verbatim>\<open>get_attribute\<close> returns it (\<open>None\<close> for a missing attribute); an empty or missing
  value is not added.
\<close>

primrec current_ids :: "string option list \<Rightarrow> string set" where
  "current_ids [] = {}"
| "current_ids (rid # els) =
     (case rid of
        None \<Rightarrow> current_ids els
      | Some r \<Rightarrow> if r \<noteq> [] then insert r (current_ids els) else current_ids els)"

text \<open>Lines 177-184: one pass of the loop body, after the scan of the page.\<close>

definition scroll_body :: "string option list \<Rightarrow> scroll_vars \<Rightarrow> scroll_vars" where
  "scroll_body els v =
     (let new_reviews = current_ids els - seen_ids v;
          v' = (if new_reviews \<noteq> {}
                then v\<lparr>seen_ids := seen_ids v \<union> new_reviews, stale_count := 0\<rparr>
                else v\<lparr>stale_count := stale_count v + 1\<rparr>)
      in v'\<lparr>scroll_count := scroll_count v' + 1\<rparr>)"

text \<open>
  Lines 164-187.  The page is given by what the driver answers in each pass: \<open>scan n\<close> is
  the list of attribute values read in the pass entered with \<open>scroll_count = n\<close>, or the
  exception that a driver call of that pass raises (the loop has no handler, so it
  leaves the loop).  \<open>max_scrolls\<close> is the constructor's integer argument.
\<close>

function scroll_loop ::
    "(nat \<Rightarrow> exn + string option list) \<Rightarrow> int \<Rightarrow> scroll_vars \<Rightarrow> exn + scroll_vars" where
  "scroll_loop scan max_scrolls v =
     (if stale_count v < max_stale \<and> int (scroll_count v) < max_scrolls
      then (case scan (scroll_count v) of
              Inl e \<Rightarrow> Inl e
            | Inr els \<Rightarrow> scroll_loop scan max_scrolls (scroll_body els v))
      else Inr v)"
  by pat_completeness auto
termination
  by (relation "measure (\<lambda>(scan, max_scrolls, v). nat (max_scrolls - int (scroll_count v)))")
     (auto simp: scroll_body_def Let_def)

declare scroll_loop.simps [simp del]

text \<open>
  Lines 149-190: wait for the scroll container (\<open>scroll_div\<close> is the exception the wait
  raises, if any), run the loop, return \<open>seen_ids\<close>.
\<close>

definition scroll_reviews ::
    "exn option \<Rightarrow> (nat \<Rightarrow> exn + string option list) \<Rightarrow> int \<Rightarrow> exn + string set" where
  "scroll_reviews scroll_div scan max_scrolls =
     (case scroll_div of
        Some e \<Rightarrow> Inl e
      | None \<Rightarrow> and_then (scroll_loop scan max_scrolls scroll_init) (\<lambda>v. Inr (seen_ids v)))"

subsection \<open>The passes of the loop, one by one\<close>

text \<open>
  \<open>vars_after sched n\<close> is the value of the loop variables after \<open>n\<close> passes over a page
  that answers \<open>sched i\<close> in pass \<open>i\<close>.
\<close>

primrec vars_after :: "(nat \<Rightarrow> string option list) \<Rightarrow> nat \<Rightarrow> scroll_vars" where
  "vars_after sched 0 = scroll_init"
| "vars_after sched (Suc n) = scroll_body (sched n) (vars_after sched n)"

text \<open>The answers of a page whose driver calls raise in some passes.\<close>

definition answers :: "(nat \<Rightarrow> exn + string option list) \<Rightarrow> nat \<Rightarrow> string option list" where
  "answers scan i = (case scan i of Inl e \<Rightarrow> [] | Inr els \<Rightarrow> els)"

text \<open>
  Pass \<open>i\<close> grows the set when it shows an identifier that no earlier pass showed.
\<close>

definition grows :: "(nat \<Rightarrow> string option list) \<Rightarrow> nat \<Rightarrow> bool" where
  "grows sched i = (\<not> current_ids (sched i) \<subseteq> (\<Union>j<i. current_ids (sched j)))"

text \<open>
  A stale window at \<open>k\<close>: none of the \<open>max_stale\<close> passes that follow the first \<open>k\<close> passes
  grows the set.
\<close>

definition stale_window :: "(nat \<Rightarrow> string option list) \<Rightarrow> nat \<Rightarrow> bool" where
  "stale_window sched k = (\<forall>i. k \<le> i \<and> i < k + max_stale \<longrightarrow> \<not> grows sched i)"

section \<open>Strings\<close>

text \<open>
  A Python \<^verbatim>\<open>str\<close> is a sequence of Unicode code points.  The text that the code strips
  or searches (the heading, the phone elements, and the text, reviewer and date of a
  review) is a list of code points; \<open>ustr\<close> gives the code points of an ASCII literal of
  the source.  The text that the code only copies, compares or concatenates (identifiers,
  labels, messages, paths, XPath expressions) is a \<open>string\<close>: its characters play no role.
\<close>

type_synonym ustring = "nat list"

definition ustr :: "string \<Rightarrow> ustring" where
  "ustr s = map of_char s"

text \<open>
  \<^verbatim>\<open>str.isspace\<close> for one code point: the characters 0x09-0x0D, 0x1C-0x1F, 0x20, 0x85,
  0xA0, 0x1680, 0x2000-0x200A, 0x2028, 0x2029, 0x202F, 0x205F and 0x3000.
  \<^verbatim>\<open>str.strip()\<close> with no argument removes these from both ends.
\<close>

definition isspace :: "nat \<Rightarrow> bool" where
  "isspace c =
     (c \<in> set [0x09, 0x0A, 0x0B, 0x0C, 0x0D, 0x1C, 0x1D, 0x1E, 0x1F, 0x20, 0x85, 0xA0, 0x1680] \<or>
      (0x2000 \<le> c \<and> c \<le> 0x200A) \<or>
      c \<in> set [0x2028, 0x2029, 0x202F, 0x205F, 0x3000])"

definition strip :: "ustring \<Rightarrow> ustring" where
  "strip s = rev (dropWhile isspace (rev (dropWhile isspace s)))"

text \<open>
  \<^verbatim>\<open>s.replace(old, new)\<close>: every occurrence of \<open>old\<close>, found from the left without overlap,
  becomes \<open>new\<close>; with an empty \<open>old\<close>, \<open>new\<close> is put before every character and at the end.
\<close>

function replace :: "'a list \<Rightarrow> 'a list \<Rightarrow> 'a list \<Rightarrow> 'a list" where
  "replace old new s =
     (if old = [] then new @ concat (map (\<lambda>c. c # new) s)
      else if s = [] then []
      else if take (length old) s = old then new @ replace old new (drop (length old) s)
      else hd s # replace old new (tl s))"
  by pat_completeness auto
termination
  by (relation "measure (\<lambda>(old, new, s). length s)") auto

declare replace.simps [simp del]

definition phone_candidates :: "string list" where
  \<open>phone_candidates =
     [''//button[contains(@aria-label, "Phone")]'',
      ''//button[contains(@data-item-id, "phone:tel")]'',
      ''//button[contains(@aria-label, "Call")]'',
      ''//div[contains(text(), "+") and contains(text(), " ")]'',
      ''//a[contains(@href,"tel:")]'']\<close>

section \<open>Extraction of the records: \<^verbatim>\<open>GoogleMapsScraper._extract_reviews\<close>\<close>

text \<open>
  One \<^verbatim>\<open>div[@data-review-id]\<close> element, as the driver shows it to the extraction pass.
  Each field is the outcome of the driver calls of one \<^verbatim>\<open>try\<close> block of lines 210-240:
  the value read, or the exception raised by \<^verbatim>\<open>find_element\<close> or by the read that
  follows it.  The element found for the rating matches
  \<^verbatim>\<open>contains(@aria-label,"star")\<close>, so its \<^verbatim>\<open>aria-label\<close> is a string.
\<close>

record element =
  data_review_id :: "exn + string option"
  rating_el :: "exn + string"
  text_el :: "exn + ustring"
  reviewer_el :: "exn + ustring"
  date_el :: "exn + ustring"

text \<open>The dictionary appended at lines 242-250.\<close>

record review =
  review_id :: string
  reviewer :: ustring
  rating :: string
  review_text :: ustring
  date :: ustring
  company_name :: ustring
  phone_number :: ustring

text \<open>
  \<^verbatim>\<open>try: x = ... except NoSuchElementException: pass\<close>, where \<open>x\<close> holds \<open>d\<close> before the
  \<^verbatim>\<open>try\<close>: any other exception leaves the block.
\<close>

definition or_default :: "exn + 'a \<Rightarrow> 'a \<Rightarrow> exn + 'a" where
  "or_default r d =
     (case r of
        Inr x \<Rightarrow> Inr x
      | Inl e \<Rightarrow> if class_of e = NoSuchElementException then Inr d else Inl e)"

definition stripped :: "exn + ustring \<Rightarrow> exn + ustring" where
  "stripped r = and_then r (\<lambda>t. Inr (strip t))"

text \<open>
  Lines 210-250, the body of the outer \<^verbatim>\<open>try\<close>: \<open>Inr None\<close> is the \<^verbatim>\<open>continue\<close> of
  line 212, \<open>Inl e\<close> an exception that reaches the handlers of lines 255-258.
\<close>

definition review_of :: "ustring \<Rightarrow> ustring \<Rightarrow> element \<Rightarrow> exn + review option" where
  "review_of company phone r =
     and_then (data_review_id r) (\<lambda>rid.
       case rid of
         None \<Rightarrow> Inr None
       | Some rid \<Rightarrow>
           if rid = [] then Inr None
           else
             and_then (or_default (rating_el r) ''No rating'') (\<lambda>rating_v.
             and_then (or_default (stripped (text_el r)) []) (\<lambda>text_v.
             and_then (or_default (stripped (reviewer_el r)) []) (\<lambda>reviewer_v.
             and_then (or_default (stripped (date_el r)) []) (\<lambda>date_v.
               Inr (Some \<lparr>review_id = rid, reviewer = reviewer_v, rating = rating_v,
                          review_text = text_v, date = date_v, company_name = company,
                          phone_number = phone\<rparr>))))))"

text \<open>
  Lines 208-258: the loop over the elements.  Both handlers \<^verbatim>\<open>continue\<close>, so an element
  whose extraction raises adds nothing; the records keep the order of the elements.
\<close>

primrec extract_loop :: "ustring \<Rightarrow> ustring \<Rightarrow> element list \<Rightarrow> review list" where
  "extract_loop company phone [] = []"
| "extract_loop company phone (r # rs) =
     (case review_of company phone r of
        Inr (Some d) \<Rightarrow> d # extract_loop company phone rs
      | Inr None \<Rightarrow> extract_loop company phone rs
      | Inl e \<Rightarrow> extract_loop company phone rs)"

text \<open>
  Lines 202-260; \<open>found\<close> is the outcome of \<^verbatim>\<open>find_elements\<close> at line 206, which is
  outside every \<^verbatim>\<open>try\<close> of the function.
\<close>

definition extract_reviews ::
    "exn + element list \<Rightarrow> ustring \<Rightarrow> ustring \<Rightarrow> exn + review list" where
  "extract_reviews found company phone =
     and_then found (\<lambda>elements. Inr (extract_loop company phone elements))"

text \<open>The identifiers of the elements that line 211 does not skip, in page order.\<close>

primrec present_ids :: "element list \<Rightarrow> string list" where
  "present_ids [] = []"
| "present_ids (r # rs) =
     (case data_review_id r of
        Inr (Some rid) \<Rightarrow> if rid = [] then present_ids rs else rid # present_ids rs
      | Inr None \<Rightarrow> present_ids rs
      | Inl e \<Rightarrow> present_ids rs)"

section \<open>Name and phone: \<^verbatim>\<open>GoogleMapsScraper._extract_company_info\<close>\<close>

text \<open>
  An element found for a phone candidate: its text and its \<^verbatim>\<open>href\<close> attribute
  (\<open>None\<close> when it has none).
\<close>

record phone_element =
  el_text :: ustring
  el_href :: "ustring option"

text \<open>
  Lines 110-113: the value that one element found gives, its stripped text or, when that
  is empty, its \<^verbatim>\<open>href\<close> (\<^verbatim>\<open>or ""\<close>) with \<^verbatim>\<open>"tel:"\<close> replaced by nothing.
\<close>

definition phone_value :: "phone_element \<Rightarrow> ustring" where
  "phone_value phone_el =
     (let t = strip (el_text phone_el)
      in if t = []
         then replace (ustr ''tel:'') []
                (case el_href phone_el of None \<Rightarrow> [] | Some h \<Rightarrow> h)
         else t)"

text \<open>
  Lines 107-117.  \<open>find_element xpath\<close> is the outcome of the \<^verbatim>\<open>try\<close> block for one
  candidate: the element found, or the exception raised.  \<open>phone\<close> is the variable
  \<^verbatim>\<open>phone_number\<close>.
\<close>

fun phone_loop ::
    "(string \<Rightarrow> exn + phone_element) \<Rightarrow> string list \<Rightarrow> ustring \<Rightarrow> exn + ustring" where
  "phone_loop find_element [] phone = Inr phone"
| "phone_loop find_element (xpath # rest) phone =
     (case find_element xpath of
        Inl e \<Rightarrow>
          if class_of e = NoSuchElementException then phone_loop find_element rest phone
          else Inl e
      | Inr phone_el \<Rightarrow>
          (let p = phone_value phone_el
           in if p \<noteq> [] then Inr p else phone_loop find_element rest p))"

text \<open>
  Lines 86-119.  \<open>name_el\<close> is the outcome of the wait for the heading and of the read of
  its text; a \<open>TimeoutException\<close> leaves the name empty.
\<close>

definition extract_company_info ::
    "exn + ustring \<Rightarrow> (string \<Rightarrow> exn + phone_element) \<Rightarrow> exn + ustring \<times> ustring" where
  "extract_company_info name_el find_element =
     and_then (case stripped name_el of
                 Inr t \<Rightarrow> Inr t
               | Inl e \<Rightarrow> if class_of e = TimeoutException then Inr [] else Inl e)
       (\<lambda>company.
     and_then (phone_loop find_element phone_candidates [])
       (\<lambda>phone. Inr (company, strip phone)))"

section \<open>The harvest: \<^verbatim>\<open>GoogleMapsScraper.scrape\<close>\<close>

text \<open>
  What the browser does during one harvest: the outcome of every driver call that
  \<^verbatim>\<open>scrape\<close> makes, in the order of the calls.  An \<open>exn option\<close> is the exception a call
  raises, \<open>None\<close> when it returns.
  \<^item> \<open>chrome\<close>: \<^verbatim>\<open>webdriver.Chrome(service=service, options=chrome_options)\<close>, line 61;
  \<^item> \<open>cdp_cmd\<close>, \<open>webdriver_script\<close>: the two calls of lines 64-70;
  \<^item> \<open>get_page\<close>: \<^verbatim>\<open>self.driver.get(self.maps_url)\<close>, line 270;
  \<^item> \<open>reject_btn\<close>: finding and clicking the button of the cookie dialog, lines 77-81;
  \<^item> \<open>name_el\<close>, \<open>phone_el\<close>: the heading and the phone candidates, lines 92-113;
  \<^item> \<open>review_tab\<close>: waiting for a tab candidate and clicking it, lines 133-136;
  \<^item> \<open>scroll_div\<close>, \<open>scans\<close>: the scroll container and the passes of the loop, lines 151-175;
  \<^item> \<open>see_more\<close>: \<^verbatim>\<open>find_elements\<close> at line 195 (line 198 catches what a click raises);
  \<^item> \<open>review_els\<close>: \<^verbatim>\<open>find_elements\<close> at line 206 and the elements it returns;
  \<^item> \<open>quit\<close>: \<^verbatim>\<open>self.driver.quit()\<close>, line 295.
\<close>

record session =
  chrome :: "exn option"
  cdp_cmd :: "exn option"
  webdriver_script :: "exn option"
  get_page :: "exn option"
  reject_btn :: "exn option"
  name_el :: "exn + ustring"
  phone_el :: "string \<Rightarrow> exn + phone_element"
  review_tab :: "string \<Rightarrow> exn option"
  scroll_div :: "exn option"
  scans :: "nat \<Rightarrow> exn + string option list"
  see_more :: "exn option"
  review_els :: "exn + element list"
  quit :: "exn option"

text \<open>
  The part of the scraper object that the harvest changes: whether \<^verbatim>\<open>self.driver\<close> holds a
  driver, and how often \<^verbatim>\<open>quit()\<close> has been called on it.
\<close>

record scraper =
  driver :: bool
  quit_calls :: nat

definition raising :: "exn option \<Rightarrow> exn + unit" where
  "raising call = (case call of None \<Rightarrow> Inr () | Some e \<Rightarrow> Inl e)"

text \<open>Lines 39-72: \<^verbatim>\<open>self.driver\<close> is assigned as soon as the driver is created.\<close>

definition setup_driver :: "session \<Rightarrow> scraper \<Rightarrow> (exn + unit) \<times> scraper" where
  "setup_driver s self =
     (case chrome s of
        Some e \<Rightarrow> (Inl e, self)
      | None \<Rightarrow>
          (and_then (raising (cdp_cmd s)) (\<lambda>_. raising (webdriver_script s)),
           self\<lparr>driver := True\<rparr>))"

text \<open>Lines 74-84.\<close>

definition close_cookie_popup :: "exn option \<Rightarrow> exn + unit" where
  "close_cookie_popup btn = or_default (raising btn) ()"

text \<open>Lines 121-147.\<close>

definition possible_tabs :: "string list" where
  \<open>possible_tabs =
     [''//button[contains(@aria-label,"reviews")]'',
      ''//button[contains(text(),"Reviews")]'',
      ''//button[contains(text(),"Rating")]'']\<close>

fun tab_loop :: "(string \<Rightarrow> exn option) \<Rightarrow> string list \<Rightarrow> exn + bool" where
  "tab_loop click [] = Inr False"
| "tab_loop click (xpath # rest) =
     (case click xpath of
        None \<Rightarrow> Inr True
      | Some e \<Rightarrow> if class_of e = TimeoutException then tab_loop click rest else Inl e)"

definition open_reviews_tab :: "(string \<Rightarrow> exn option) \<Rightarrow> exn + unit" where
  "open_reviews_tab click =
     (case and_then (tab_loop click possible_tabs) (\<lambda>tab_clicked.
             if \<not> tab_clicked
             then Inl (Raise Exception ''Could not find the reviews tab on the page'')
             else Inr ()) of
        Inl e \<Rightarrow> Inl (Raise Exception (''Could not open reviews section: '' @ str e))
      | Inr u \<Rightarrow> Inr u)"

text \<open>Lines 192-200.\<close>

definition expand_see_more :: "exn option \<Rightarrow> exn + unit" where
  "expand_see_more buttons = raising buttons"

text \<open>
  Lines 269-288, the \<^verbatim>\<open>try\<close> block after \<^verbatim>\<open>_setup_driver\<close>.  The set that
  \<^verbatim>\<open>_scroll_reviews\<close> returns is not used.
\<close>

definition scrape_steps :: "session \<Rightarrow> int \<Rightarrow> exn + review list" where
  "scrape_steps s max_scrolls =
     and_then (raising (get_page s)) (\<lambda>_.
     and_then (close_cookie_popup (reject_btn s)) (\<lambda>_.
     and_then (extract_company_info (name_el s) (phone_el s)) (\<lambda>(company, phone).
     and_then (open_reviews_tab (review_tab s)) (\<lambda>_.
     and_then (scroll_reviews (scroll_div s) (scans s) max_scrolls) (\<lambda>_.
     and_then (expand_see_more (see_more s)) (\<lambda>_.
       extract_reviews (review_els s) company phone))))))"

text \<open>
  Lines 262-295: the \<^verbatim>\<open>try\<close> block, the handler that wraps every exception in a plain
  \<^verbatim>\<open>Exception\<close>, and the \<^verbatim>\<open>finally\<close> block; an exception raised by \<^verbatim>\<open>quit()\<close> replaces
  the outcome.  The result is the outcome of the call and the scraper object after it.
\<close>

definition scrape :: "session \<Rightarrow> int \<Rightarrow> (exn + review list) \<times> scraper" where
  "scrape s max_scrolls =
     (let (started, self) = setup_driver s \<lparr>driver = False, quit_calls = 0\<rparr>;
          outcome = (case and_then started (\<lambda>_. scrape_steps s max_scrolls) of
                       Inl e \<Rightarrow> Inl (Raise Exception (''Scraping failed: '' @ str e))
                     | Inr reviews_data \<Rightarrow> Inr reviews_data)
      in if driver self
         then (case quit s of
                 None \<Rightarrow> (outcome, self\<lparr>quit_calls := quit_calls self + 1\<rparr>)
               | Some e \<Rightarrow> (Inl e, self\<lparr>quit_calls := quit_calls self + 1\<rparr>))
         else (outcome, self))"

section \<open>Jobs: \<^verbatim>\<open>app/main.py\<close>\<close>

text \<open>
  A value of \<^verbatim>\<open>jobs_db\<close>: the keys that \<^verbatim>\<open>start_scrape\<close> sets, and the keys that
  \<^verbatim>\<open>run_scraper_sync\<close> adds (\<open>None\<close> while the dictionary does not have the key).
\<close>

record job =
  job_id :: string
  status :: string
  created_at :: string
  maps_url :: string
  started_at :: "string option"
  completed_at :: "string option"
  total_reviews :: "nat option"
  output_file :: "string option"
  error :: "string option"
  error_trace :: "string option"
  error_type :: "string option"

text \<open>The state of the process: \<^verbatim>\<open>jobs_db\<close> and the JSON files on disk, by path.\<close>

record world =
  jobs_db :: "string \<rightharpoonup> job"
  files :: "string \<rightharpoonup> review list"

text \<open>
  What the code reads from outside: the path found at import (\<^verbatim>\<open>CHROMEDRIVER_PATH\<close>),
  \<^verbatim>\<open>uuid.uuid4()\<close>, the three readings of the clock, what the browser does for a URL, the
  exception that writing the output file raises (if any), and \<^verbatim>\<open>traceback.format_exc()\<close>.
\<close>

record env =
  chromedriver_path :: string
  uuid4 :: string
  now_created :: string
  now_started :: string
  now_completed :: string
  browser :: "string \<Rightarrow> session"
  write_output :: "exn option"
  format_exc :: "exn \<Rightarrow> string"

text \<open>Lines 130-142; the task it schedules is \<open>run_scraper_sync\<close>, run afterwards.\<close>

definition start_scrape :: "env \<Rightarrow> string \<Rightarrow> world \<Rightarrow> job \<times> world" where
  "start_scrape ev url w =
     (let j = \<lparr>job_id = uuid4 ev, status = ''queued'', created_at = now_created ev,
               maps_url = url, started_at = None, completed_at = None, total_reviews = None,
               output_file = None, error = None, error_trace = None, error_type = None\<rparr>
      in (j, w\<lparr>jobs_db := (jobs_db w)(uuid4 ev \<mapsto> j)\<rparr>))"

text \<open>
  Lines 74-102, the \<^verbatim>\<open>try\<close> block of \<^verbatim>\<open>run_scraper_sync\<close>: its outcome and the state it
  leaves.  The scraper is built with the default \<^verbatim>\<open>max_scrolls = 500\<close>.
\<close>

definition run_scraper_try :: "env \<Rightarrow> string \<Rightarrow> string \<Rightarrow> world \<Rightarrow> (exn + unit) \<times> world" where
  "run_scraper_try ev jid url w =
     (case jobs_db w jid of
        None \<Rightarrow> (Inl (Raise KeyError jid), w)
      | Some j \<Rightarrow>
          (let j1 = j\<lparr>status := ''processing'', started_at := Some (now_started ev)\<rparr>;
               w1 = w\<lparr>jobs_db := (jobs_db w)(jid \<mapsto> j1)\<rparr>
           in case fst (scrape (browser ev url) 500) of
                Inl e \<Rightarrow> (Inl e, w1)
              | Inr reviews_data \<Rightarrow>
                  if reviews_data = []
                  then (Inl (Raise ValueError ''No reviews were extracted from this location''), w1)
                  else
                    (case write_output ev of
                       Some e \<Rightarrow> (Inl e, w1)
                     | None \<Rightarrow>
                         (let path = ''output/'' @ jid @ ''.json'';
                              j2 = j1\<lparr>status := ''completed'',
                                      completed_at := Some (now_completed ev),
                                      total_reviews := Some (length reviews_data),
                                      output_file := Some path\<rparr>
                          in (Inr (),
                              w1\<lparr>jobs_db := (jobs_db w1)(jid \<mapsto> j2),
                                 files := (files w1)(path \<mapsto> reviews_data)\<rparr>)))))"

text \<open>
  Lines 72-116: the \<^verbatim>\<open>try\<close> block and its three handlers.  A handler reads
  \<^verbatim>\<open>jobs_db[job_id]\<close> again, so it raises \<open>KeyError\<close> for a job that is not in the map.
\<close>

definition run_scraper_sync :: "env \<Rightarrow> string \<Rightarrow> string \<Rightarrow> world \<Rightarrow> (exn + unit) \<times> world" where
  "run_scraper_sync ev jid url w =
     (case run_scraper_try ev jid url w of
        (Inr u, w') \<Rightarrow> (Inr (), w')
      | (Inl e, w') \<Rightarrow>
          (case jobs_db w' jid of
             None \<Rightarrow> (Inl (Raise KeyError jid), w')
           | Some j \<Rightarrow>
               (let j' =
                  (if class_of e = FileNotFoundError
                   then j\<lparr>status := ''failed'',
                          error := Some (''ChromeDriver not found at '' @ chromedriver_path ev),
                          error_type := Some ''chromedriver_not_found''\<rparr>
                   else if class_of e = ValueError
                   then j\<lparr>status := ''failed'', error := Some (str e),
                          error_type := Some ''no_reviews''\<rparr>
                   else j\<lparr>status := ''failed'', error := Some (str e),
                          error_trace := Some (format_exc ev e),
                          error_type := Some ''unknown''\<rparr>)
                in (Inr (), w'\<lparr>jobs_db := (jobs_db w')(jid \<mapsto> j')\<rparr>))))"

text \<open>Lines 144-164: the two queries; an \<^verbatim>\<open>HTTPException\<close> is its status code and detail.\<close>

datatype http_exception = HTTPException nat string

definition get_job_status :: "world \<Rightarrow> string \<Rightarrow> http_exception + job" where
  "get_job_status w jid =
     (case jobs_db w jid of
        None \<Rightarrow> Inl (HTTPException 404 ''Job not found'')
      | Some j \<Rightarrow> Inr j)"

definition download_results :: "world \<Rightarrow> string \<Rightarrow> http_exception + string \<times> review list" where
  "download_results w jid =
     (case jobs_db w jid of
        None \<Rightarrow> Inl (HTTPException 404 ''Job not found'')
      | Some j \<Rightarrow>
          if status j \<noteq> ''completed''
          then Inl (HTTPException 400 ''Job not completed yet'')
          else
            (case output_file j of
               None \<Rightarrow> Inl (HTTPException 404 ''Output file not found'')
             | Some output_path \<Rightarrow>
                 if output_path = [] then Inl (HTTPException 404 ''Output file not found'')
                 else
                   (case files w output_path of
                      None \<Rightarrow> Inl (HTTPException 404 ''Output file not found'')
                    | Some data \<Rightarrow> Inr (jid, data))))"

section \<open>Vocabulary of the properties\<close>





section \<open>Example inputs\<close>

text \<open>
  Pages used to run the loop on concrete input: \<open>page_two_then_stale\<close> shows a new review
  in each of its first two passes, nothing new in the third, and loses the driver after
  that; \<open>page_reveals k\<close> shows one new review in each of its first \<open>k\<close> passes and an
  empty list afterwards; \<open>page_endless\<close> shows a new review in every pass.
\<close>

definition page_two_then_stale :: "nat \<Rightarrow> exn + string option list" where
  "page_two_then_stale i =
     (if i = 0 then Inr [Some ''r1'', None, Some '''']
      else if i = 1 then Inr [Some ''r2'', Some ''r1'']
      else if i = 2 then Inr [Some ''r1'']
      else Inl (Raise WebDriverException ''disconnected''))"

definition page_reveals :: "nat \<Rightarrow> nat \<Rightarrow> string option list" where
  "page_reveals k i = (if i < k then [Some (replicate (Suc i) CHR ''r'')] else [])"

definition page_endless :: "nat \<Rightarrow> string option list" where
  "page_endless i = [Some (replicate (Suc i) CHR ''r'')]"

text \<open>
  A page that shows a first review in pass 0 and a second one only in pass 8; a page that
  shows a new review in every seventh pass, for ever.
\<close>

definition page_gap :: "nat \<Rightarrow> string option list" where
  "page_gap i = (if i = 0 then [Some ''a''] else if i = 8 then [Some ''b''] else [])"

definition page_every_seventh :: "nat \<Rightarrow> string option list" where
  "page_every_seventh i = (if i mod 7 = 0 then [Some (replicate (Suc i) CHR ''r'')] else [])"

text \<open>
  Elements of a page: one with every field, one with an identifier only, one whose
  identifier can no longer be read.
\<close>

definition no_such_element :: exn where
  "no_such_element = Raise NoSuchElementException ''no such element''"

definition full_element :: element where
  "full_element =
     \<lparr>data_review_id = Inr (Some ''r1''), rating_el = Inr ''5 stars'',
      text_el = Inr (ustr '' Great coffee ''), reviewer_el = Inr (0xA0 # ustr ''Ann'' @ [0x3000]),
      date_el = Inr (ustr ''a week ago'')\<rparr>"

definition bare_element :: element where
  "bare_element =
     \<lparr>data_review_id = Inr (Some ''r2''), rating_el = Inl no_such_element,
      text_el = Inl no_such_element, reviewer_el = Inl no_such_element,
      date_el = Inl no_such_element\<rparr>"

definition stale_element :: element where
  "stale_element =
     \<lparr>data_review_id = Inl (Raise StaleElementReferenceException ''stale element''),
      rating_el = Inr ''4 stars'', text_el = Inr (ustr ''Fine''), reviewer_el = Inr (ustr ''Bob''),
      date_el = Inr (ustr ''a month ago'')\<rparr>"

text \<open>
  A browser in which every call returns, on a page with no cookie dialog, no phone
  element and the given review elements, which do not change while the loop scrolls.
\<close>

definition page_session :: "element list \<Rightarrow> session" where
  "page_session els =
     \<lparr>chrome = None, cdp_cmd = None, webdriver_script = None, get_page = None,
      reject_btn = Some no_such_element, name_el = Inr (ustr '' Cafe Roma ''),
      phone_el = (\<lambda>xpath. Inl no_such_element), review_tab = (\<lambda>xpath. None),
      scroll_div = None,
      scans = (\<lambda>i. Inr (map (\<lambda>r. case data_review_id r of Inl e \<Rightarrow> None | Inr a \<Rightarrow> a) els)),
      see_more = None, review_els = Inr els, quit = None\<rparr>"

text \<open>
  An environment whose browser behaves as \<open>s\<close> for every URL and whose disk accepts the
  output file; the state of a process that has no job yet; a job as a successful run
  leaves it.
\<close>

definition example_env :: "session \<Rightarrow> env" where
  "example_env s =
     \<lparr>chromedriver_path = ''/usr/bin/chromedriver'', uuid4 = ''job-1'', now_created = ''t0'',
      now_started = ''t1'', now_completed = ''t2'', browser = (\<lambda>url. s),
      write_output = None, format_exc = (\<lambda>e. ''Traceback'')\<rparr>"

definition empty_world :: world where
  "empty_world = \<lparr>jobs_db = Map.empty, files = Map.empty\<rparr>"

definition finished_job :: job where
  "finished_job =
     \<lparr>job_id = ''job-1'', status = ''completed'', created_at = ''t0'', maps_url = ''place/X'',
      started_at = Some ''t1'', completed_at = Some ''t2'', total_reviews = Some 1,
      output_file = Some ''output/job-1.json'', error = None, error_trace = None,
      error_type = None\<rparr>"

text \<open>
  A page on which no candidate for the reviews tab becomes clickable; a machine on which
  the chromedriver binary is missing; a page whose third phone candidate is a button with
  a blank label and whose fifth is a link.
\<close>

definition no_tab_session :: session where
  "no_tab_session =
     (page_session [full_element])
       \<lparr>review_tab := (\<lambda>xpath. Some (Raise TimeoutException ''timeout''))\<rparr>"

definition missing_driver_session :: session where
  "missing_driver_session =
     (page_session [full_element])
       \<lparr>chrome := Some (Raise FileNotFoundError ''No such file or directory: chromedriver'')\<rparr>"






section \<open>Properties of the scroll loop\<close>

lemma scroll_count_body [simp]: "scroll_count (scroll_body els v) = Suc (scroll_count v)"
  by (simp add: scroll_body_def Let_def)

lemma seen_ids_body [simp]: "seen_ids (scroll_body els v) = seen_ids v \<union> current_ids els"
  by (auto simp: scroll_body_def Let_def)

lemma stale_count_body:
  "stale_count (scroll_body els v) =
     (if current_ids els \<subseteq> seen_ids v then Suc (stale_count v) else 0)"
  by (auto simp: scroll_body_def Let_def)

lemma scroll_count_vars_after [simp]: "scroll_count (vars_after sched n) = n"
  by (induction n) (simp_all add: scroll_init_def)

lemma seen_ids_vars_after: "seen_ids (vars_after sched n) = (\<Union>i<n. current_ids (sched i))"
  by (induction n) (simp_all add: scroll_init_def lessThan_Suc Un_commute)

lemma stale_count_vars_after_Suc:
  "stale_count (vars_after sched (Suc n)) =
     (if grows sched n then 0 else Suc (stale_count (vars_after sched n)))"
  by (simp add: stale_count_body seen_ids_vars_after grows_def)

lemma finite_current_ids [simp]: "finite (current_ids els)"
  by (induction els) (simp_all split: option.splits)

lemma scroll_loop_from:
  "scroll_loop scan max_scrolls v = Inr final \<Longrightarrow>
   v = vars_after (answers scan) (scroll_count v) \<Longrightarrow>
   final = vars_after (answers scan) (scroll_count final) \<and> scroll_count v \<le> scroll_count final \<and>
   (\<forall>i. scroll_count v \<le> i \<and> i < scroll_count final \<longrightarrow> (\<exists>els. scan i = Inr els))"
proof (induction scan max_scrolls v rule: scroll_loop.induct)
  case (1 scan max_scrolls v)
  show ?case
  proof (cases "stale_count v < max_stale \<and> int (scroll_count v) < max_scrolls")
    case False
    with "1.prems" show ?thesis by (auto simp: scroll_loop.simps)
  next
    case True
    with "1.prems"(1) obtain els where els: "scan (scroll_count v) = Inr els"
      and run: "scroll_loop scan max_scrolls (scroll_body els v) = Inr final"
      by (auto simp: scroll_loop.simps [of scan max_scrolls v] split: sum.splits)
    have "answers scan (scroll_count v) = els" by (simp add: answers_def els)
    with "1.prems"(2)
    have "scroll_body els v = vars_after (answers scan) (scroll_count (scroll_body els v))"
      by simp
    from "1.IH" [OF True els run this]
    have IH: "final = vars_after (answers scan) (scroll_count final)"
      "Suc (scroll_count v) \<le> scroll_count final"
      "\<forall>i. Suc (scroll_count v) \<le> i \<and> i < scroll_count final \<longrightarrow> (\<exists>els. scan i = Inr els)"
      by simp_all
    have "\<exists>els. scan i = Inr els" if "scroll_count v \<le> i" "i < scroll_count final" for i
      using that IH(3) els by (cases "i = scroll_count v") auto
    with IH show ?thesis by simp
  qed
qed

lemma scroll_loop_run:
  "n \<le> N \<Longrightarrow>
   (\<forall>m. n \<le> m \<and> m < N \<longrightarrow>
      stale_count (vars_after sched m) < max_stale \<and> int m < max_scrolls \<and> scan m = Inr (sched m)) \<Longrightarrow>
   \<not> (stale_count (vars_after sched N) < max_stale \<and> int N < max_scrolls) \<Longrightarrow>
   scroll_loop scan max_scrolls (vars_after sched n) = Inr (vars_after sched N)"
proof (induction rule: inc_induct)
  case base
  then show ?case by (auto simp: scroll_loop.simps [of scan max_scrolls "vars_after sched N"])
next
  case (step n)
  from step.prems(1) step.hyps(1,2)
  have here: "stale_count (vars_after sched n) < max_stale" "int n < max_scrolls"
    "scan n = Inr (sched n)"
    by auto
  have "scroll_loop scan max_scrolls (vars_after sched (Suc n)) = Inr (vars_after sched N)"
    using step.prems by (intro step.IH) auto
  with here show ?case
    by (simp add: scroll_loop.simps [of scan max_scrolls "vars_after sched n"])
qed

lemma stale_count_ge:
  "c \<le> stale_count (vars_after sched m) \<longleftrightarrow>
     c \<le> m \<and> (\<forall>i. m - c \<le> i \<and> i < m \<longrightarrow> \<not> grows sched i)"
proof (induction m arbitrary: c)
  case 0
  show ?case by (simp add: scroll_init_def)
next
  case (Suc m)
  show ?case
  proof (cases c)
    case 0
    then show ?thesis by auto
  next
    case (Suc c')
    show ?thesis
    proof (cases "grows sched m")
      case True
      then have "\<exists>i. Suc m - Suc c' \<le> i \<and> i < Suc m \<and> grows sched i"
        by (intro exI [of _ m]) simp
      with True show ?thesis
        unfolding stale_count_vars_after_Suc Suc by auto
    next
      case False
      have "(\<forall>i. m - c' \<le> i \<and> i < Suc m \<longrightarrow> \<not> grows sched i) \<longleftrightarrow>
            (\<forall>i. m - c' \<le> i \<and> i < m \<longrightarrow> \<not> grows sched i)"
        using False less_Suc_eq by auto
      with False Suc.IH [of c'] show ?thesis
        unfolding stale_count_vars_after_Suc Suc by simp
    qed
  qed
qed

lemma stale_limit_reached:
  "max_stale \<le> stale_count (vars_after sched m) \<longleftrightarrow>
     max_stale \<le> m \<and> stale_window sched (m - max_stale)"
  unfolding stale_count_ge stale_window_def 
  by auto

lemma scroll_loop_stops:
  assumes first: "\<forall>j<k. \<not> stale_window sched j" and here: "stale_window sched k"
  shows "scroll_loop (\<lambda>i. Inr (sched i)) max_scrolls scroll_init =
           Inr (vars_after sched (nat (min (int k + int max_stale) max_scrolls)))"
proof -
  let ?N = "nat (min (int k + int max_stale) max_scrolls)"
  have below: "stale_count (vars_after sched m) < max_stale \<and> int m < max_scrolls" if "m < ?N" for m
  proof -
    from that have m: "m < k + max_stale" "int m < max_scrolls" by auto
    have "\<not> max_stale \<le> stale_count (vars_after sched m)"
    proof
      assume "max_stale \<le> stale_count (vars_after sched m)"
      then have "max_stale \<le> m" "stale_window sched (m - max_stale)"
        by (simp_all add: stale_limit_reached)
      moreover from this m have "m - max_stale < k" by auto
      ultimately show False using first by blast
    qed
    with m show ?thesis by simp
  qed
  have stop: "\<not> (stale_count (vars_after sched ?N) < max_stale \<and> int ?N < max_scrolls)"
  proof (cases "int k + int max_stale \<le> max_scrolls")
    case True
    then have "?N = k + max_stale" by auto
    moreover have "max_stale \<le> stale_count (vars_after sched (k + max_stale))"
      using here by (simp add: stale_limit_reached)
    ultimately show ?thesis by simp
  next
    case False
    then show ?thesis by auto
  qed
  have "scroll_loop (\<lambda>i. Inr (sched i)) max_scrolls (vars_after sched 0) = Inr (vars_after sched ?N)"
    using below stop by (intro scroll_loop_run) auto
  then show ?thesis by simp
qed

lemma scroll_loop_ceiling:
  assumes never: "\<forall>j. \<not> stale_window sched j"
  shows "scroll_loop (\<lambda>i. Inr (sched i)) max_scrolls scroll_init =
           Inr (vars_after sched (nat max_scrolls))"
proof -
  have "stale_count (vars_after sched m) < max_stale" for m
    using never stale_limit_reached [of sched m] by (auto simp: not_le [symmetric])
  then have "scroll_loop (\<lambda>i. Inr (sched i)) max_scrolls (vars_after sched 0) =
      Inr (vars_after sched (nat max_scrolls))"
    by (intro scroll_loop_run) auto
  then show ?thesis by simp
qed

text \<open>
  Claim C2, as the code has it.  The number of passes of the scroll loop over a page whose
  driver calls do not raise.  Let the first \<open>k\<close> passes be followed by the first run of
  \<open>max_stale\<close> passes that show nothing new: the \<open>max_stale\<close> passes after the first \<open>k\<close> show
  nothing new, and no earlier run of \<open>max_stale\<close> passes did (in particular, a page that
  shows something new in each of its first \<open>k\<close> passes and never afterwards).  Then the loop
  returns after exactly \<open>min (k + max_stale) max_scrolls\<close> passes, whatever the page would
  show later.  On a page with no run of \<open>max_stale\<close> passes without a new identifier it
  returns after exactly \<open>max_scrolls\<close> passes.  In both cases the loop does return.
\<close>

theorem scroll_loop_attempts:
  "((\<forall>j<k. \<not> stale_window sched j) \<and> stale_window sched k \<longrightarrow>
      (\<exists>v. scroll_loop (\<lambda>i. Inr (sched i)) max_scrolls scroll_init = Inr v \<and>
           scroll_count v = nat (min (int k + int max_stale) max_scrolls))) \<and>
   ((\<forall>j. \<not> stale_window sched j) \<longrightarrow>
      (\<exists>v. scroll_loop (\<lambda>i. Inr (sched i)) max_scrolls scroll_init = Inr v \<and>
           scroll_count v = nat max_scrolls))"
proof (intro conjI impI)
  assume "(\<forall>j<k. \<not> stale_window sched j) \<and> stale_window sched k"
  then have "scroll_loop (\<lambda>i. Inr (sched i)) max_scrolls scroll_init =
      Inr (vars_after sched (nat (min (int k + int max_stale) max_scrolls)))"
    by (intro scroll_loop_stops) blast+
  moreover have "scroll_count (vars_after sched (nat (min (int k + int max_stale) max_scrolls))) =
      nat (min (int k + int max_stale) max_scrolls)"
    by (rule scroll_count_vars_after)
  ultimately show "\<exists>v. scroll_loop (\<lambda>i. Inr (sched i)) max_scrolls scroll_init = Inr v \<and>
      scroll_count v = nat (min (int k + int max_stale) max_scrolls)"
    by blast
next
  assume "\<forall>j. \<not> stale_window sched j"
  then have "scroll_loop (\<lambda>i. Inr (sched i)) max_scrolls scroll_init =
      Inr (vars_after sched (nat max_scrolls))"
    by (rule scroll_loop_ceiling)
  moreover have "scroll_count (vars_after sched (nat max_scrolls)) = nat max_scrolls"
    by (rule scroll_count_vars_after)
  ultimately show "\<exists>v. scroll_loop (\<lambda>i. Inr (sched i)) max_scrolls scroll_init = Inr v \<and>
      scroll_count v = nat max_scrolls"
    by blast
qed

text \<open>
  Claim C1.  When \<^verbatim>\<open>_scroll_reviews\<close> returns a set, the loop has made some number \<open>n\<close> of
  passes, in each of which the driver answered; the loop variables at the exit are those
  after \<open>n\<close> passes; the set returned is the union of the sets \<open>current_ids\<close> of these \<open>n\<close>
  passes; and from one pass to any later one \<open>seen_ids\<close> only grows, as a set and in size.
\<close>

theorem scroll_reviews_union:
  assumes "scroll_reviews container scan max_scrolls = Inr seen"
  shows "\<exists>n. (\<forall>i<n. \<exists>els. scan i = Inr els) \<and>
             scroll_loop scan max_scrolls scroll_init = Inr (vars_after (answers scan) n) \<and>
             seen = (\<Union>i<n. current_ids (answers scan i)) \<and>
             (\<forall>m\<le>n. \<forall>l\<le>m.
                seen_ids (vars_after (answers scan) l) \<subseteq> seen_ids (vars_after (answers scan) m) \<and>
                card (seen_ids (vars_after (answers scan) l)) \<le> card (seen_ids (vars_after (answers scan) m)))"
proof -
  from assms obtain final where run: "scroll_loop scan max_scrolls scroll_init = Inr final"
    and seen: "seen = seen_ids final"
    by (auto simp: scroll_reviews_def and_then_def split: option.splits sum.splits)
  have "scroll_init = vars_after (answers scan) (scroll_count scroll_init)"
    by (simp add: scroll_init_def)
  from scroll_loop_from [OF run this]
  have final: "final = vars_after (answers scan) (scroll_count final)"
    and ok: "\<forall>i<scroll_count final. \<exists>els. scan i = Inr els"
    by (simp_all add: scroll_init_def)
  have mono: "seen_ids (vars_after (answers scan) l) \<subseteq> seen_ids (vars_after (answers scan) m) \<and>
      card (seen_ids (vars_after (answers scan) l)) \<le> card (seen_ids (vars_after (answers scan) m))"
    if "l \<le> m" for l m
  proof -
    have sub: "seen_ids (vars_after (answers scan) l) \<subseteq> seen_ids (vars_after (answers scan) m)"
      using that unfolding seen_ids_vars_after by (intro UN_mono) auto
    have "finite (seen_ids (vars_after (answers scan) m))"
      by (simp add: seen_ids_vars_after)
    with sub show ?thesis by (simp add: card_mono)
  qed
  show ?thesis
  proof (intro exI [of _ "scroll_count final"] conjI)
    show "\<forall>i<scroll_count final. \<exists>els. scan i = Inr els" by (rule ok)
    show "scroll_loop scan max_scrolls scroll_init = Inr (vars_after (answers scan) (scroll_count final))"
      using run final by simp
    show "seen = (\<Union>i<scroll_count final. current_ids (answers scan i))"
      using seen final seen_ids_vars_after [of "answers scan" "scroll_count final"] by simp
    show "\<forall>m\<le>scroll_count final. \<forall>l\<le>m.
        seen_ids (vars_after (answers scan) l) \<subseteq> seen_ids (vars_after (answers scan) m) \<and>
        card (seen_ids (vars_after (answers scan) l)) \<le> card (seen_ids (vars_after (answers scan) m))"
      using mono by blast
  qed
qed

lemma seen_short: "x \<in> (\<Union>j<i. current_ids (page_reveals k j)) \<Longrightarrow> length x \<le> i"
  by (auto simp: page_reveals_def split: if_splits)

lemma grows_page_reveals: "grows (page_reveals k) i \<longleftrightarrow> i < k"
proof (cases "i < k")
  case True
  have "replicate (Suc i) CHR ''r'' \<notin> (\<Union>j<i. current_ids (page_reveals k j))"
    using seen_short [where x = "replicate (Suc i) CHR ''r''" and i = i and k = k] by auto
  with True show ?thesis by (simp add: grows_def page_reveals_def)
next
  case False
  then show ?thesis by (simp add: grows_def page_reveals_def)
qed

lemma stale_window_page_reveals: "stale_window (page_reveals k) j \<longleftrightarrow> k \<le> j"
proof
  assume "stale_window (page_reveals k) j"
  then have "\<not> grows (page_reveals k) j"
    unfolding stale_window_def max_stale_def by simp
  then show "k \<le> j" by (simp add: grows_page_reveals)
next
  assume "k \<le> j"
  then show "stale_window (page_reveals k) j"
    by (auto simp: stale_window_def grows_page_reveals)
qed

lemma grows_page_endless: "grows page_endless i"
proof -
  have "length x \<le> i" if "x \<in> (\<Union>j<i. current_ids (page_endless j))" for x
    using that by (auto simp: page_endless_def)
  from this [of "replicate (Suc i) CHR ''r''"] show ?thesis
    by (auto simp: grows_def page_endless_def)
qed

lemma stale_window_page_endless: "\<not> stale_window page_endless j"
proof
  assume "stale_window page_endless j"
  then have "\<not> grows page_endless j"
    unfolding stale_window_def max_stale_def by simp
  then show False by (simp add: grows_page_endless)
qed

text \<open>The loop run on \<open>page_two_then_stale\<close> with a ceiling of three passes.\<close>

theorem scroll_reviews_union_witness:
  "scroll_reviews None page_two_then_stale 3 = Inr {''r1'', ''r2''} \<and>
   (\<exists>n. (\<forall>i<n. \<exists>els. page_two_then_stale i = Inr els) \<and>
      scroll_loop page_two_then_stale 3 scroll_init =
        Inr (vars_after (answers page_two_then_stale) n) \<and>
      {''r1'', ''r2''} = (\<Union>i<n. current_ids (answers page_two_then_stale i)) \<and>
      (\<forall>m\<le>n. \<forall>l\<le>m.
         seen_ids (vars_after (answers page_two_then_stale) l)
           \<subseteq> seen_ids (vars_after (answers page_two_then_stale) m) \<and>
         card (seen_ids (vars_after (answers page_two_then_stale) l))
           \<le> card (seen_ids (vars_after (answers page_two_then_stale) m))))"
proof -
  have h: "scroll_reviews None page_two_then_stale 3 = Inr {''r1'', ''r2''}"
    by (simp add: scroll_reviews_def and_then_def scroll_loop.simps scroll_init_def scroll_body_def
      page_two_then_stale_def max_stale_def Let_def insert_commute)
  show ?thesis by (rule conjI [OF h scroll_reviews_union [OF h]])
qed

lemma grows_page_gap: "grows page_gap i \<longleftrightarrow> i = 0 \<or> i = 8"
proof -
  have seen: "(\<Union>j<i. current_ids (page_gap j)) \<subseteq> {''a''}" if "i \<le> 8" for i
    using that by (auto simp: page_gap_def split: if_splits)
  consider "i = 0" | "i = 8" | "i \<noteq> 0" "i \<noteq> 8" by blast
  then show ?thesis
  proof cases
    case 1
    then show ?thesis by (simp add: grows_def page_gap_def)
  next
    case 2
    with seen [of 8] show ?thesis by (auto simp: grows_def page_gap_def)
  next
    case 3
    then show ?thesis by (simp add: grows_def page_gap_def)
  qed
qed

lemma grows_page_every_seventh: "grows page_every_seventh i \<longleftrightarrow> i mod 7 = 0"
proof (cases "i mod 7 = 0")
  case True
  have "length x \<le> i" if "x \<in> (\<Union>j<i. current_ids (page_every_seventh j))" for x
    using that by (auto simp: page_every_seventh_def split: if_splits)
  from this [of "replicate (Suc i) CHR ''r''"] True show ?thesis
    by (auto simp: grows_def page_every_seventh_def)
next
  case False
  then show ?thesis by (simp add: grows_def page_every_seventh_def)
qed

lemma scroll_loop_page_gap:
  "scroll_loop (\<lambda>i. Inr (page_gap i)) 500 scroll_init = Inr (vars_after page_gap 7)"
proof -
  have "\<forall>j<1. \<not> stale_window page_gap j"
    by (auto simp: stale_window_def grows_page_gap max_stale_def)
  moreover have "stale_window page_gap 1"
    by (auto simp: stale_window_def grows_page_gap max_stale_def)
  ultimately show ?thesis
    using scroll_loop_stops [of 1 page_gap 500] by (simp add: max_stale_def)
qed

lemma scroll_loop_page_every_seventh:
  "scroll_loop (\<lambda>i. Inr (page_every_seventh i)) 500 scroll_init =
     Inr (vars_after page_every_seventh 7)"
proof -
  have "\<forall>j<1. \<not> stale_window page_every_seventh j"
    by (auto simp: stale_window_def grows_page_every_seventh max_stale_def)
  moreover have "stale_window page_every_seventh 1"
    by (auto simp: stale_window_def grows_page_every_seventh max_stale_def)
  ultimately show ?thesis
    using scroll_loop_stops [of 1 page_every_seventh 500] by (simp add: max_stale_def)
qed

text \<open>
  Claim C2 as stated fails.  On \<open>page_gap\<close> the set stops growing after attempt 9 (pass 8 is
  the last that shows something new), and the loop returns after 7 passes, not after
  \<open>min (9 + max_stale) 500 = 15\<close>.  On \<open>page_every_seventh\<close> the set never stops growing, and
  the loop returns after 7 passes, not after 500.
\<close>

theorem scroll_loop_attempts_fail:
  "\<not> (\<forall>sched k max_scrolls.
        (k = 0 \<or> grows sched (k - 1)) \<and> (\<forall>i\<ge>k. \<not> grows sched i) \<longrightarrow>
        (\<exists>v. scroll_loop (\<lambda>i. Inr (sched i)) max_scrolls scroll_init = Inr v \<and>
             scroll_count v = nat (min (int k + int max_stale) max_scrolls))) \<and>
   \<not> (\<forall>sched max_scrolls.
        (\<forall>n. \<exists>i\<ge>n. grows sched i) \<longrightarrow>
        (\<exists>v. scroll_loop (\<lambda>i. Inr (sched i)) max_scrolls scroll_init = Inr v \<and>
             scroll_count v = nat max_scrolls))"
proof (intro conjI notI)
  assume "\<forall>sched k max_scrolls.
        (k = 0 \<or> grows sched (k - 1)) \<and> (\<forall>i\<ge>k. \<not> grows sched i) \<longrightarrow>
        (\<exists>v. scroll_loop (\<lambda>i. Inr (sched i)) max_scrolls scroll_init = Inr v \<and>
             scroll_count v = nat (min (int k + int max_stale) max_scrolls))"
  moreover have "((9::nat) = 0 \<or> grows page_gap (9 - 1)) \<and> (\<forall>i\<ge>9. \<not> grows page_gap i)"
    by (simp add: grows_page_gap)
  ultimately obtain v where "scroll_loop (\<lambda>i. Inr (page_gap i)) 500 scroll_init = Inr v"
    and "scroll_count v = nat (min (int 9 + int max_stale) 500)"
    by blast
  then show False by (auto simp: scroll_loop_page_gap max_stale_def)
next
  assume "\<forall>sched max_scrolls.
        (\<forall>n. \<exists>i\<ge>n. grows sched i) \<longrightarrow>
        (\<exists>v. scroll_loop (\<lambda>i. Inr (sched i)) max_scrolls scroll_init = Inr v \<and>
             scroll_count v = nat max_scrolls)"
  moreover have "\<forall>n. \<exists>i\<ge>n. grows page_every_seventh i"
  proof
    fix n
    have "n \<le> 7 * n" "grows page_every_seventh (7 * n)"
      by (simp_all add: grows_page_every_seventh)
    then show "\<exists>i\<ge>n. grows page_every_seventh i" by blast
  qed
  ultimately obtain v
    where "scroll_loop (\<lambda>i. Inr (page_every_seventh i)) 500 scroll_init = Inr v"
    and "scroll_count v = nat 500"
    by blast
  then show False by (auto simp: scroll_loop_page_every_seventh)
qed

text \<open>
  The loop run on a page that stops growing after two passes, with a ceiling of 500 and
  of 5 passes, and on a page that never stops growing, with a ceiling of 4 passes.
\<close>

theorem scroll_loop_attempts_witness:
  "(\<exists>v. scroll_loop (\<lambda>i. Inr (page_reveals 2 i)) 500 scroll_init = Inr v \<and> scroll_count v = 8) \<and>
   (\<exists>v. scroll_loop (\<lambda>i. Inr (page_reveals 2 i)) 5 scroll_init = Inr v \<and> scroll_count v = 5) \<and>
   (\<exists>v. scroll_loop (\<lambda>i. Inr (page_endless i)) 4 scroll_init = Inr v \<and> scroll_count v = 4)"
proof -
  have a: "(\<forall>j<2. \<not> stale_window (page_reveals 2) j) \<and> stale_window (page_reveals 2) 2"
    by (simp add: stale_window_page_reveals)
  have b: "\<forall>j. \<not> stale_window page_endless j"
    by (simp add: stale_window_page_endless)
  from a scroll_loop_attempts [of 2 "page_reveals 2" 500]
  have 1: "\<exists>v. scroll_loop (\<lambda>i. Inr (page_reveals 2 i)) 500 scroll_init = Inr v \<and> scroll_count v = 8"
    by (simp add: max_stale_def)
  from a scroll_loop_attempts [of 2 "page_reveals 2" 5]
  have 2: "\<exists>v. scroll_loop (\<lambda>i. Inr (page_reveals 2 i)) 5 scroll_init = Inr v \<and> scroll_count v = 5"
    by (simp add: max_stale_def)
  from b scroll_loop_attempts [of 0 page_endless 4]
  have 3: "\<exists>v. scroll_loop (\<lambda>i. Inr (page_endless i)) 4 scroll_init = Inr v \<and> scroll_count v = 4"
    by simp
  from 1 2 3 show ?thesis by (intro conjI)
qed

section \<open>Properties of the extraction pass\<close>

lemma ustr_simps: "ustr [] = []" "ustr (c # cs) = of_char c # ustr cs"
  by (simp_all add: ustr_def)

lemma and_then_Inr: "and_then r f = Inr y \<longleftrightarrow> (\<exists>x. r = Inr x \<and> f x = Inr y)"
  by (cases r) (simp_all add: and_then_def)

lemma and_then_simps [simp]: "and_then (Inl e) f = Inl e" "and_then (Inr x) f = f x"
  by (simp_all add: and_then_def)

lemma or_default_Inr:
  "or_default r d = Inr y \<longleftrightarrow>
     r = Inr y \<or> (\<exists>e. r = Inl e \<and> class_of e = NoSuchElementException \<and> y = d)"
  by (cases r) (auto simp: or_default_def)

lemma review_of_Some:
  "review_of company phone r = Inr (Some d) \<longleftrightarrow>
     (\<exists>rid. data_review_id r = Inr (Some rid) \<and> rid \<noteq> [] \<and> review_id d = rid) \<and>
     or_default (rating_el r) ''No rating'' = Inr (rating d) \<and>
     or_default (stripped (text_el r)) [] = Inr (review_text d) \<and>
     or_default (stripped (reviewer_el r)) [] = Inr (reviewer d) \<and>
     or_default (stripped (date_el r)) [] = Inr (date d) \<and>
     company_name d = company \<and> phone_number d = phone"
  by (cases d; cases "data_review_id r"; cases "or_default (rating_el r) ''No rating''";
      cases "or_default (stripped (text_el r)) []";
      cases "or_default (stripped (reviewer_el r)) []";
      cases "or_default (stripped (date_el r)) []")
     (auto simp: review_of_def split: option.splits)

lemma extract_loop_mem:
  "d \<in> set (extract_loop company phone els) \<longleftrightarrow>
     (\<exists>r\<in>set els. review_of company phone r = Inr (Some d))"
  by (induction els) (auto split: sum.splits option.splits)

lemma review_ids_present:
  "set (map review_id (extract_loop company phone els)) \<subseteq> set (present_ids els)"
  by (induction els) (auto simp: review_of_Some split: sum.splits option.splits)

lemma review_ids_distinct:
  "distinct (present_ids els) \<Longrightarrow> distinct (map review_id (extract_loop company phone els))"
proof (induction els)
  case Nil
  show ?case by simp
next
  case (Cons r rs)
  show ?case
  proof (cases "review_of company phone r")
    case (Inl e)
    with Cons show ?thesis by (auto split: sum.splits option.splits if_splits)
  next
    case (Inr opt)
    show ?thesis
    proof (cases opt)
      case None
      with Inr Cons show ?thesis by (auto split: sum.splits option.splits if_splits)
    next
      case (Some d)
      with Inr have d: "data_review_id r = Inr (Some (review_id d))" "review_id d \<noteq> []"
        by (auto simp: review_of_Some)
      with Cons.prems have "review_id d \<notin> set (present_ids rs)" "distinct (present_ids rs)"
        by simp_all
      with review_ids_present [of company phone rs] Cons.IH Inr Some show ?thesis
        by auto
    qed
  qed
qed

lemma review_of_full_element:
  "review_of company phone full_element =
     Inr (Some \<lparr>review_id = ''r1'', reviewer = ustr ''Ann'', rating = ''5 stars'',
                review_text = ustr ''Great coffee'', date = ustr ''a week ago'', company_name = company,
                phone_number = phone\<rparr>)"
  by (simp add: review_of_def full_element_def or_default_def stripped_def strip_def isspace_def ustr_simps)

lemma review_of_bare_element:
  "review_of company phone bare_element =
     Inr (Some \<lparr>review_id = ''r2'', reviewer = [], rating = ''No rating'', review_text = [],
                date = [], company_name = company, phone_number = phone\<rparr>)"
  by (simp add: review_of_def bare_element_def or_default_def stripped_def no_such_element_def)

lemma review_of_stale_element:
  "review_of company phone stale_element =
     Inl (Raise StaleElementReferenceException ''stale element'')"
  by (simp add: review_of_def stale_element_def)

text \<open>
  Claim C9.  Every record that the extraction pass appends comes from an element of the
  page and carries a rating: the \<^verbatim>\<open>aria-label\<close> of the star element when one is found
  inside the element, and the string \<^verbatim>\<open>"No rating"\<close> when the lookup raises
  \<open>NoSuchElementException\<close>.  (Any other exception of the lookup reaches the outer handler,
  and no record is appended.)
\<close>

theorem rating_always_set:
  assumes "d \<in> set (extract_loop company phone els)"
  shows "\<exists>r\<in>set els. review_of company phone r = Inr (Some d) \<and>
           (case rating_el r of
              Inr label \<Rightarrow> rating d = label
            | Inl e \<Rightarrow> class_of e = NoSuchElementException \<and> rating d = ''No rating'')"
proof -
  from assms obtain r where r: "r \<in> set els" "review_of company phone r = Inr (Some d)"
    by (auto simp: extract_loop_mem)
  then have "or_default (rating_el r) ''No rating'' = Inr (rating d)"
    by (simp add: review_of_Some)
  then have "case rating_el r of
      Inr label \<Rightarrow> rating d = label
    | Inl e \<Rightarrow> class_of e = NoSuchElementException \<and> rating d = ''No rating''"
    by (auto simp: or_default_Inr split: sum.splits)
  with r show ?thesis by blast
qed

text \<open>The record of \<open>bare_element\<close>, which has no star element.\<close>

theorem rating_always_set_witness:
  "\<lparr>review_id = ''r2'', reviewer = [], rating = ''No rating'', review_text = [], date = [],
     company_name = ustr ''Cafe Roma'', phone_number = []\<rparr>
     \<in> set (extract_loop (ustr ''Cafe Roma'') [] [full_element, bare_element]) \<and>
   (\<exists>r\<in>set [full_element, bare_element].
      review_of (ustr ''Cafe Roma'') [] r =
        Inr (Some \<lparr>review_id = ''r2'', reviewer = [], rating = ''No rating'', review_text = [],
                   date = [], company_name = ustr ''Cafe Roma'', phone_number = []\<rparr>) \<and>
      (case rating_el r of
         Inr label \<Rightarrow>
           rating \<lparr>review_id = ''r2'', reviewer = [], rating = ''No rating'', review_text = [],
                   date = [], company_name = ustr ''Cafe Roma'', phone_number = []\<rparr> = label
       | Inl e \<Rightarrow>
           class_of e = NoSuchElementException \<and>
           rating \<lparr>review_id = ''r2'', reviewer = [], rating = ''No rating'', review_text = [],
                   date = [], company_name = ustr ''Cafe Roma'', phone_number = []\<rparr> = ''No rating''))"
proof -
  have h: "\<lparr>review_id = ''r2'', reviewer = [], rating = ''No rating'', review_text = [], date = [],
     company_name = ustr ''Cafe Roma'', phone_number = []\<rparr>
     \<in> set (extract_loop (ustr ''Cafe Roma'') [] [full_element, bare_element])"
    by (simp add: review_of_full_element review_of_bare_element)
  show ?thesis by (rule conjI [OF h rating_always_set [OF h]])
qed

section \<open>Properties of the field extraction\<close>










section \<open>Properties of the harvest\<close>

lemma setup_driver_driver: "driver (snd (setup_driver s self)) = (chrome s = None \<or> driver self)"
  by (simp add: setup_driver_def split: option.splits)

lemma setup_driver_quit_calls: "quit_calls (snd (setup_driver s self)) = quit_calls self"
  by (simp add: setup_driver_def split: option.splits)

lemma setup_driver_fails: "chrome s = Some e \<Longrightarrow> fst (setup_driver s self) = Inl e"
  by (simp add: setup_driver_def)

lemma scrape_state:
  "snd (scrape s max_scrolls) =
     \<lparr>driver = (chrome s = None), quit_calls = (if chrome s = None then 1 else 0)\<rparr>"
  by (cases "chrome s"; cases "quit s")
     (simp_all add: scrape_def setup_driver_def Let_def split: prod.splits)

lemma scrape_steps_Inr:
  "scrape_steps s max_scrolls = Inr rs \<Longrightarrow>
     \<exists>els company phone. review_els s = Inr els \<and> rs = extract_loop company phone els"
  by (auto simp: scrape_steps_def extract_reviews_def and_then_Inr)

lemma scrape_Inr:
  assumes "fst (scrape s max_scrolls) = Inr rs"
  shows "\<exists>els company phone. review_els s = Inr els \<and> rs = extract_loop company phone els"
proof -
  from assms have "scrape_steps s max_scrolls = Inr rs"
    by (auto simp: scrape_def Let_def and_then_def split: prod.splits sum.splits if_splits option.splits)
  then show ?thesis by (rule scrape_steps_Inr)
qed

lemma scrape_no_driver:
  "chrome s = Some e \<Longrightarrow>
     scrape s max_scrolls =
       (Inl (Raise Exception (''Scraping failed: '' @ str e)), \<lparr>driver = False, quit_calls = 0\<rparr>)"
  by (simp add: scrape_def setup_driver_def Let_def)

lemma scroll_loop_returns:
  "(\<And>i. \<exists>els. scan i = Inr els) \<Longrightarrow> \<exists>v'. scroll_loop scan max_scrolls v = Inr v'"
proof (induction scan max_scrolls v rule: scroll_loop.induct)
  case (1 scan max_scrolls v)
  show ?case
  proof (cases "stale_count v < max_stale \<and> int (scroll_count v) < max_scrolls")
    case False
    then show ?thesis by (auto simp: scroll_loop.simps [of scan max_scrolls v])
  next
    case True
    from "1.prems" obtain els where els: "scan (scroll_count v) = Inr els" by blast
    from "1.IH" [OF True els "1.prems"]
    obtain v' where "scroll_loop scan max_scrolls (scroll_body els v) = Inr v'" by blast
    with True els show ?thesis by (simp add: scroll_loop.simps [of scan max_scrolls v])
  qed
qed

lemma phone_loop_page_session:
  "phone_loop (\<lambda>xpath. Inl no_such_element) xs [] = Inr []"
  by (induction xs) (simp_all add: no_such_element_def)

lemma scrape_steps_page_session:
  "scrape_steps (page_session els) max_scrolls = Inr (extract_loop (ustr ''Cafe Roma'') [] els)"
proof -
  obtain v where "scroll_loop (scans (page_session els)) max_scrolls scroll_init = Inr v"
    using scroll_loop_returns [of "scans (page_session els)" max_scrolls scroll_init]
    by (auto simp: page_session_def)
  then have "scroll_reviews (scroll_div (page_session els)) (scans (page_session els)) max_scrolls
      = Inr (seen_ids v)"
    by (simp add: scroll_reviews_def page_session_def)
  moreover have "extract_company_info (name_el (page_session els)) (phone_el (page_session els))
      = Inr (ustr ''Cafe Roma'', [])"
    by (simp add: extract_company_info_def page_session_def stripped_def strip_def isspace_def ustr_simps
        phone_loop_page_session)
  moreover have "open_reviews_tab (review_tab (page_session els)) = Inr ()"
    by (simp add: open_reviews_tab_def page_session_def possible_tabs_def)
  ultimately show ?thesis
    by (simp add: scrape_steps_def raising_def close_cookie_popup_def or_default_def
        expand_see_more_def extract_reviews_def)
       (simp add: page_session_def no_such_element_def)
qed

lemma scrape_page_session:
  "scrape (page_session els) max_scrolls =
     (Inr (extract_loop (ustr ''Cafe Roma'') [] els), \<lparr>driver = True, quit_calls = 1\<rparr>)"
proof -
  have "setup_driver (page_session els) \<lparr>driver = False, quit_calls = 0\<rparr>
      = (Inr (), \<lparr>driver = True, quit_calls = 0\<rparr>)"
    by (simp add: setup_driver_def page_session_def raising_def)
  then show ?thesis
    by (simp add: scrape_def Let_def scrape_steps_page_session) (simp add: page_session_def)
qed

lemma scrape_no_tab:
  "fst (scrape no_tab_session 500) =
     Inl (Raise Exception
       ''Scraping failed: Could not open reviews section: Could not find the reviews tab on the page'')"
  by (simp add: scrape_def setup_driver_def raising_def Let_def no_tab_session_def page_session_def
      scrape_steps_def close_cookie_popup_def or_default_def no_such_element_def
      extract_company_info_def stripped_def phone_candidates_def open_reviews_tab_def
      possible_tabs_def)

text \<open>
  Claim C6.  Whatever the browser does during the harvest, and so on every way out of
  \<^verbatim>\<open>scrape\<close> (a list returned, the wrapped exception of a failed step, or the exception of
  \<^verbatim>\<open>quit()\<close> itself), \<^verbatim>\<open>self.driver\<close> holds a driver at the end exactly when
  \<^verbatim>\<open>webdriver.Chrome\<close> returned one, and \<^verbatim>\<open>quit()\<close> has then been called on it once; it is
  not called when no driver was created.
\<close>

theorem scrape_quits_driver:
  "driver (snd (scrape s max_scrolls)) = (chrome s = None) \<and>
   quit_calls (snd (scrape s max_scrolls)) = (if chrome s = None then 1 else 0)"
  by (simp add: scrape_state)

text \<open>A harvest that fails at the reviews tab, after the driver was created.\<close>

theorem scrape_quits_driver_witness:
  "fst (scrape no_tab_session 500) =
     Inl (Raise Exception
       ''Scraping failed: Could not open reviews section: Could not find the reviews tab on the page'') \<and>
   driver (snd (scrape no_tab_session 500)) \<and> quit_calls (snd (scrape no_tab_session 500)) = 1"
  using scrape_quits_driver [of no_tab_session 500] scrape_no_tab
  by (simp add: no_tab_session_def page_session_def)

text \<open>
  Claim C4, as the code has it.  The harvest does not deduplicate: the identifiers of the
  records it returns are among the non-empty identifiers of the elements present at the
  extraction pass, and they are pairwise different when those are.
\<close>

theorem harvest_ids_follow_page:
  assumes "fst (scrape s max_scrolls) = Inr rs"
  shows "\<exists>els. review_els s = Inr els \<and>
           set (map review_id rs) \<subseteq> set (present_ids els) \<and>
           (distinct (present_ids els) \<longrightarrow> distinct (map review_id rs))"
proof -
  from scrape_Inr [OF assms] obtain els company phone
    where "review_els s = Inr els" "rs = extract_loop company phone els"
    by blast
  then show ?thesis
    using review_ids_present [of company phone els] review_ids_distinct [of els company phone]
    by blast
qed

text \<open>
  Claim C4 as stated fails: on a page that shows two elements with the same identifier,
  the harvest returns two records with that identifier.
\<close>

theorem harvest_ids_not_unique:
  "\<not> (\<forall>s max_scrolls rs. fst (scrape s max_scrolls) = Inr rs \<longrightarrow> distinct (map review_id rs))"
proof
  assume "\<forall>s max_scrolls rs. fst (scrape s max_scrolls) = Inr rs \<longrightarrow> distinct (map review_id rs)"
  moreover have "fst (scrape (page_session [full_element, full_element]) 500) =
      Inr (extract_loop (ustr ''Cafe Roma'') [] [full_element, full_element])"
    by (simp only: scrape_page_session fst_conv)
  ultimately have
    "distinct (map review_id (extract_loop (ustr ''Cafe Roma'') [] [full_element, full_element]))"
    by blast
  then show False by (simp add: review_of_full_element)
qed

text \<open>A page with two readable elements and one whose identifier cannot be read.\<close>

theorem harvest_ids_follow_page_witness:
  "fst (scrape (page_session [full_element, stale_element, bare_element]) 500) =
     Inr [\<lparr>review_id = ''r1'', reviewer = ustr ''Ann'', rating = ''5 stars'',
           review_text = ustr ''Great coffee'', date = ustr ''a week ago'', company_name = ustr ''Cafe Roma'',
           phone_number = []\<rparr>,
          \<lparr>review_id = ''r2'', reviewer = [], rating = ''No rating'', review_text = [],
           date = [], company_name = ustr ''Cafe Roma'', phone_number = []\<rparr>] \<and>
   distinct (present_ids [full_element, stale_element, bare_element]) \<and>
   distinct [''r1'', ''r2'']"
proof -
  let ?s = "page_session [full_element, stale_element, bare_element]"
  have run: "fst (scrape ?s 500) =
     Inr [\<lparr>review_id = ''r1'', reviewer = ustr ''Ann'', rating = ''5 stars'',
           review_text = ustr ''Great coffee'', date = ustr ''a week ago'', company_name = ustr ''Cafe Roma'',
           phone_number = []\<rparr>,
          \<lparr>review_id = ''r2'', reviewer = [], rating = ''No rating'', review_text = [],
           date = [], company_name = ustr ''Cafe Roma'', phone_number = []\<rparr>]"
    by (simp add: scrape_page_session review_of_full_element review_of_bare_element
        review_of_stale_element)
  have els: "review_els ?s = Inr [full_element, stale_element, bare_element]"
    by (simp add: page_session_def)
  have d: "distinct (present_ids [full_element, stale_element, bare_element])"
    by (simp add: full_element_def stale_element_def bare_element_def)
  from harvest_ids_follow_page [OF run] els d have "distinct [''r1'', ''r2'']"
    by auto
  with run d show ?thesis by (intro conjI)
qed

section \<open>Properties of the background task\<close>

lemma start_scrape_example:
  "start_scrape (example_env s) url empty_world =
     (\<lparr>job_id = ''job-1'', status = ''queued'', created_at = ''t0'', maps_url = url,
       started_at = None, completed_at = None, total_reviews = None, output_file = None,
       error = None, error_trace = None, error_type = None\<rparr>,
      \<lparr>jobs_db = [''job-1'' \<mapsto>
         \<lparr>job_id = ''job-1'', status = ''queued'', created_at = ''t0'', maps_url = url,
          started_at = None, completed_at = None, total_reviews = None, output_file = None,
          error = None, error_trace = None, error_type = None\<rparr>],
       files = Map.empty\<rparr>)"
  by (simp add: start_scrape_def example_env_def empty_world_def Let_def)







text \<open>
  Claim C7 fails on the code.  When \<^verbatim>\<open>webdriver.Chrome\<close> raises an exception \<open>e\<close> of any
  class, \<open>FileNotFoundError\<close> included, \<^verbatim>\<open>scrape\<close> raises a plain \<open>Exception\<close> with the
  message \<^verbatim>\<open>"Scraping failed: "\<close> and \<^verbatim>\<open>str(e)\<close>; the handler for \<open>FileNotFoundError\<close> in
  \<^verbatim>\<open>run_scraper_sync\<close> does not match it, and the job ends with error type
  \<^verbatim>\<open>"unknown"\<close>, not \<^verbatim>\<open>"chromedriver_not_found"\<close>.
\<close>

theorem missing_driver_is_unknown:
  assumes "jobs_db w jid = Some j" and "chrome (browser ev url) = Some e"
  shows "fst (scrape (browser ev url) 500) = Inl (Raise Exception (''Scraping failed: '' @ str e)) \<and>
         jobs_db (snd (run_scraper_sync ev jid url w)) jid =
           Some (j\<lparr>status := ''failed'', started_at := Some (now_started ev),
                   error := Some (''Scraping failed: '' @ str e),
                   error_trace := Some (format_exc ev (Raise Exception (''Scraping failed: '' @ str e))),
                   error_type := Some ''unknown''\<rparr>)"
  using assms
  by (simp add: run_scraper_sync_def run_scraper_try_def Let_def scrape_no_driver)

text \<open>A job submitted when the chromedriver binary is missing.\<close>

theorem missing_driver_is_unknown_witness:
  "jobs_db (snd (run_scraper_sync (example_env missing_driver_session) ''job-1'' ''place/X''
         (snd (start_scrape (example_env missing_driver_session) ''place/X'' empty_world)))) ''job-1'' =
     Some \<lparr>job_id = ''job-1'', status = ''failed'', created_at = ''t0'', maps_url = ''place/X'',
           started_at = Some ''t1'', completed_at = None, total_reviews = None,
           output_file = None,
           error = Some ''Scraping failed: No such file or directory: chromedriver'',
           error_trace = Some ''Traceback'', error_type = Some ''unknown''\<rparr>"
proof -
  let ?ev = "example_env missing_driver_session"
  let ?w = "snd (start_scrape ?ev ''place/X'' empty_world)"
  let ?j = "fst (start_scrape ?ev ''place/X'' empty_world)"
  have a: "jobs_db ?w ''job-1'' = Some ?j"
    by (simp add: start_scrape_example)
  have b: "chrome (browser ?ev ''place/X'') =
      Some (Raise FileNotFoundError ''No such file or directory: chromedriver'')"
    by (simp add: example_env_def missing_driver_session_def)
  from missing_driver_is_unknown [OF a b] show ?thesis
    by (simp add: start_scrape_example) (simp add: example_env_def)
qed

section \<open>Properties of the queries\<close>

text \<open>
  Claim C8.  For a job identifier that is not in the map, the status query and the result
  query both raise the 404 \<^verbatim>\<open>"Job not found"\<close>.  For a job of the map whose status is not
  \<^verbatim>\<open>"completed"\<close>, the status query returns the job and the result query raises the 400
  \<^verbatim>\<open>"Job not completed yet"\<close>, whatever the files on disk hold.
\<close>

theorem query_unknown_or_unfinished:
  "(jobs_db w jid = None \<longrightarrow>
      get_job_status w jid = Inl (HTTPException 404 ''Job not found'') \<and>
      download_results w jid = Inl (HTTPException 404 ''Job not found'')) \<and>
   (\<forall>j. jobs_db w jid = Some j \<and> status j \<noteq> ''completed'' \<longrightarrow>
      get_job_status w jid = Inr j \<and>
      download_results w jid = Inl (HTTPException 400 ''Job not completed yet''))"
  by (simp add: get_job_status_def download_results_def)

text \<open>An unknown identifier and a job that is still queued.\<close>

theorem query_unknown_or_unfinished_witness:
  "get_job_status (snd (start_scrape (example_env (page_session [])) ''place/X'' empty_world)) ''job-0''
     = Inl (HTTPException 404 ''Job not found'') \<and>
   download_results (snd (start_scrape (example_env (page_session [])) ''place/X'' empty_world)) ''job-0''
     = Inl (HTTPException 404 ''Job not found'') \<and>
   download_results (snd (start_scrape (example_env (page_session [])) ''place/X'' empty_world)) ''job-1''
     = Inl (HTTPException 400 ''Job not completed yet'')"
proof -
  let ?w = "snd (start_scrape (example_env (page_session [])) ''place/X'' empty_world)"
  let ?j = "fst (start_scrape (example_env (page_session [])) ''place/X'' empty_world)"
  have a: "jobs_db ?w ''job-0'' = None"
    by (simp add: start_scrape_def example_env_def empty_world_def Let_def)
  have b: "jobs_db ?w ''job-1'' = Some ?j \<and> status ?j \<noteq> ''completed''"
    by (simp add: start_scrape_def example_env_def empty_world_def Let_def)
  from query_unknown_or_unfinished [of ?w "''job-0''"] a
    query_unknown_or_unfinished [of ?w "''job-1''"] b
  show ?thesis by blast
qed

text \<open>
  Claim C10.  For a job of the map with status \<^verbatim>\<open>"completed"\<close> that has no
  \<^verbatim>\<open>output_file\<close>, an empty one, or one that names no file on disk, the result query
  raises the 404 \<^verbatim>\<open>"Output file not found"\<close>.
\<close>

theorem download_output_missing:
  assumes "jobs_db w jid = Some j" and "status j = ''completed''"
    and "output_file j = None \<or> output_file j = Some [] \<or>
         (\<exists>p. output_file j = Some p \<and> files w p = None)"
  shows "download_results w jid = Inl (HTTPException 404 ''Output file not found'')"
  using assms by (auto simp: download_results_def)

text \<open>A completed job whose file is gone, and one that has no \<^verbatim>\<open>output_file\<close>.\<close>

theorem download_output_missing_witness:
  "download_results \<lparr>jobs_db = [''job-1'' \<mapsto> finished_job], files = Map.empty\<rparr> ''job-1''
     = Inl (HTTPException 404 ''Output file not found'') \<and>
   download_results
       \<lparr>jobs_db = [''job-1'' \<mapsto> finished_job\<lparr>output_file := None\<rparr>],
        files = [''output/job-1.json'' \<mapsto> []]\<rparr> ''job-1''
     = Inl (HTTPException 404 ''Output file not found'')"
proof -
  have 1: "download_results \<lparr>jobs_db = [''job-1'' \<mapsto> finished_job], files = Map.empty\<rparr> ''job-1''
      = Inl (HTTPException 404 ''Output file not found'')"
    by (rule download_output_missing [where j = finished_job]) (simp_all add: finished_job_def)
  have 2: "download_results
       \<lparr>jobs_db = [''job-1'' \<mapsto> finished_job\<lparr>output_file := None\<rparr>],
        files = [''output/job-1.json'' \<mapsto> []]\<rparr> ''job-1''
     = Inl (HTTPException 404 ''Output file not found'')"
    by (rule download_output_missing [where j = "finished_job\<lparr>output_file := None\<rparr>"])
       (simp_all add: finished_job_def)
  from 1 2 show ?thesis by (rule conjI)
qed

end
